theory Spec2Isabelle
  imports Main "HOL-Library.Sublist" "HOL-Library.AList"
begin

section \<open>Data model of \<^verbatim>\<open>parser.js\<close>\<close>

text \<open>
  JavaScript values: \<^verbatim>\<open>undefined\<close> (also an absent property), strings, booleans, integral
  numbers, arrays and plain objects. An object is the list of its own properties, in
  insertion order. A JavaScript string is a sequence of code units; each one is a
  \<^typ>\<open>char\<close> here. \<open>Foreign\<close> stands for every other value (a function, a boxed
  primitive, an array with extra properties, \<^verbatim>\<open>null\<close>, a number that is not integral):
  the model does not look into it and only records whether it is truthy.
\<close>

datatype val =
    Undefined
  | Str string
  | Bool bool
  | Num int
  | Arr "val list"
  | Obj "(string \<times> val) list"
  | Foreign bool nat

text \<open>What \<^verbatim>\<open>if (v)\<close>, \<^verbatim>\<open>v && ...\<close> and \<^verbatim>\<open>v ? ... : ...\<close> test.\<close>

fun truthy :: "val \<Rightarrow> bool" where
  "truthy Undefined = False"
| "truthy (Str s) = (s \<noteq> [])"
| "truthy (Bool b) = b"
| "truthy (Num n) = (n \<noteq> 0)"
| "truthy (Arr xs) = True"
| "truthy (Obj props) = True"
| "truthy (Foreign b n) = b"

text \<open>
  \<^verbatim>\<open>Just<A>\<close>: \<^verbatim>\<open>{ parsed, rest }\<close>. The source declares \<^verbatim>\<open>rest\<close> a string, but
  \<^verbatim>\<open>bindInversed\<close> and \<^verbatim>\<open>seqInversed\<close> put whatever value the left parser produced there,
  so \<^verbatim>\<open>rest\<close> is a value.
\<close>

record state =
  parsed :: val
  rest :: val

text \<open>
  What one call of \<^verbatim>\<open>_parse\<close> delivers when it returns: \<^verbatim>\<open>undefined\<close> (\<open>Failure\<close>), a
  \<^verbatim>\<open>Just\<close> (\<open>Success\<close>), or a \<^verbatim>\<open>TypeError\<close> raised on the way (\<open>Threw\<close>). A call that
  never returns (a loop that runs forever) is \<open>None\<close>.

  A parser is a function of the state it is given, as the interface declares it
  (\<^verbatim>\<open>ParseFunction\<close>: \<^verbatim>\<open>Just<A>\<close> to \<^verbatim>\<open>Maybe<B>\<close>), and values are compared by their
  content. The one place where the source updates an object in place
  (\<^verbatim>\<open>Object.assign\<close> in \<^verbatim>\<open>bind\<close> and \<^verbatim>\<open>bindInversed\<close>) returns the updated object as a
  new value here; object identity, and an update seen through a second reference to
  the same object, are not part of the model.
\<close>

datatype outcome = Failure | Success state | Threw

type_synonym parser = "state \<Rightarrow> outcome option"

text \<open>
  The source is written for string remainders. On a remainder that is truthy and not a
  string it still runs: indexing, \<^verbatim>\<open>slice\<close>, \<^verbatim>\<open>==\<close> and \<^verbatim>\<open>startsWith\<close> then go through
  JavaScript's coercions and method lookup, and \<^verbatim>\<open>Object.assign\<close> boxes a primitive
  target. None of that is in \<^verbatim>\<open>parser.js\<close>, so it is a parameter here: one field for
  each place of the source that can meet such a value, giving the result of that place.
  Every theorem below holds for all values of the parameter.
  \<^item> \<open>item_other\<close>, \<open>char_other\<close>, \<open>sat_other\<close>, \<open>string_other\<close>, \<open>brackets_other\<close>: the
    primitive of that name applied to a state whose \<^verbatim>\<open>rest\<close> is truthy and not a string;
  \<^item> \<open>repeat_other\<close>: the rest of the run of \<^verbatim>\<open>Parser.repeat\<close> from the point where the
    element parser failed on a text that is not a string (the loop then reads
    \<^verbatim>\<open>text[0]\<close> and \<^verbatim>\<open>text.slice(1)\<close>);
  \<^item> \<open>get_other\<close>: the property read \<^verbatim>\<open>v[key]\<close> on a value that is neither \<^verbatim>\<open>undefined\<close>
    nor a plain object (\<open>None\<close>: it throws);
  \<^item> \<open>assign_other\<close>: \<^verbatim>\<open>Object.assign(target, source)\<close> outside the cases spelled out
    below (\<open>None\<close>: it throws).
\<close>

record javascript =
  item_other :: "state \<Rightarrow> outcome option"
  char_other :: "string \<Rightarrow> state \<Rightarrow> outcome option"
  sat_other :: "(val \<Rightarrow> bool) \<Rightarrow> state \<Rightarrow> outcome option"
  string_other :: "string \<Rightarrow> state \<Rightarrow> outcome option"
  brackets_other :: "string \<Rightarrow> string \<Rightarrow> state \<Rightarrow> outcome option"
  repeat_other ::
    "parser \<Rightarrow> (val \<Rightarrow> val) \<Rightarrow> (val \<Rightarrow> bool) \<Rightarrow> val \<Rightarrow> string \<Rightarrow> val list \<Rightarrow> outcome option"
  get_other :: "val \<Rightarrow> string \<Rightarrow> val option"
  assign_other :: "val \<Rightarrow> val \<Rightarrow> val option"

text \<open>\<^verbatim>\<open>this.parseText = text => this._parse({ rest: text })\<close>\<close>

definition parseText :: "parser \<Rightarrow> string \<Rightarrow> outcome option" where
  "parseText P text = P \<lparr>parsed = Undefined, rest = Str text\<rparr>"

section \<open>Primitive constructors\<close>

definition Parser_result :: "val \<Rightarrow> parser" where
  "Parser_result v = (\<lambda>input. Some (Success \<lparr>parsed = v, rest = rest input\<rparr>))"

definition Parser_zero :: parser where
  "Parser_zero = (\<lambda>input. Some Failure)"

text \<open>\<^verbatim>\<open>rest ? { parsed: rest[0], rest: rest.slice(1) } : undefined\<close>; the empty string is falsy.\<close>

definition Parser_item :: "javascript \<Rightarrow> parser" where
  "Parser_item js = (\<lambda>input.
     case rest input of
       Str text \<Rightarrow>
         if text \<noteq> []
         then Some (Success \<lparr>parsed = Str [hd text], rest = Str (drop 1 text)\<rparr>)
         else Some Failure
     | other \<Rightarrow> if truthy other then item_other js input else Some Failure)"

text \<open>\<^verbatim>\<open>rest && rest[0] == c\<close>: \<^verbatim>\<open>c\<close> is a string, compared with the one-unit string \<^verbatim>\<open>rest[0]\<close>.\<close>

definition Parser_char :: "javascript \<Rightarrow> string \<Rightarrow> parser" where
  "Parser_char js c = (\<lambda>input.
     case rest input of
       Str text \<Rightarrow>
         if text \<noteq> [] \<and> [hd text] = c
         then Some (Success \<lparr>parsed = Str c, rest = Str (drop 1 text)\<rparr>)
         else Some Failure
     | other \<Rightarrow> if truthy other then char_other js c input else Some Failure)"

definition Parser_sat :: "javascript \<Rightarrow> (val \<Rightarrow> bool) \<Rightarrow> parser" where
  "Parser_sat js condition = (\<lambda>input.
     case rest input of
       Str text \<Rightarrow>
         if text \<noteq> [] \<and> condition (Str [hd text])
         then Some (Success \<lparr>parsed = Str [hd text], rest = Str (drop 1 text)\<rparr>)
         else Some Failure
     | other \<Rightarrow> if truthy other then sat_other js condition input else Some Failure)"

text \<open>\<^verbatim>\<open>input.rest && input.rest.startsWith(template)\<close>\<close>

definition Parser_string :: "javascript \<Rightarrow> string \<Rightarrow> parser" where
  "Parser_string js template = (\<lambda>input.
     case rest input of
       Str text \<Rightarrow>
         if text \<noteq> [] \<and> prefix template text
         then Some (Success \<lparr>parsed = Str template, rest = Str (drop (length template) text)\<rparr>)
         else Some Failure
     | other \<Rightarrow> if truthy other then string_other js template input else Some Failure)"

text \<open>\<^verbatim>\<open>condition(input.rest) ? input : undefined\<close>: the input state itself is returned.\<close>

definition Parser_peek :: "(val \<Rightarrow> bool) \<Rightarrow> parser" where
  "Parser_peek condition = (\<lambda>input.
     if condition (rest input) then Some (Success input) else Some Failure)"

definition Parser_all :: parser where
  "Parser_all = (\<lambda>input. Some (Success \<lparr>parsed = rest input, rest = Str []\<rparr>))"

definition Parser_end :: parser where
  "Parser_end = (\<lambda>input.
     if truthy (rest input) then Some Failure
     else Some (Success \<lparr>parsed = Bool True, rest = Str []\<rparr>))"

section \<open>Combinators (the methods of \<^verbatim>\<open>Parser\<close>)\<close>

text \<open>\<^verbatim>\<open>result.parsed[key] = point.parsed\<close> on a fresh object.\<close>

definition save :: "parser \<Rightarrow> string \<Rightarrow> parser" where
  "save this key = (\<lambda>input.
     case this input of
       None \<Rightarrow> None
     | Some Failure \<Rightarrow> Some Failure
     | Some Threw \<Rightarrow> Some Threw
     | Some (Success point) \<Rightarrow>
         Some (Success \<lparr>parsed = Obj [(key, parsed point)], rest = rest point\<rparr>))"

text \<open>
  \<^verbatim>\<open>Object.assign(target, source)\<close> on a plain object as target writes every own property
  of the source into the target, in the source's order: a key the target has keeps its
  place and takes the source's value, a new key is appended. A source that is
  \<^verbatim>\<open>undefined\<close>, a boolean or a number has no own properties; a string or an array has
  its indices, written in decimal, as keys. A target that is \<^verbatim>\<open>undefined\<close> raises a
  \<^verbatim>\<open>TypeError\<close> (\<open>None\<close>). The source mutates \<^verbatim>\<open>left.parsed\<close> in place; the model
  returns the merged object as a value.
\<close>

definition assign_props :: "(string \<times> val) list \<Rightarrow> (string \<times> val) list \<Rightarrow> (string \<times> val) list" where
  "assign_props target source = foldl (\<lambda>t (k, v). AList.update k v t) target source"

fun decimal :: "nat \<Rightarrow> string" where
  "decimal n =
     (if n < 10 then [''0123456789'' ! n]
      else decimal (n div 10) @ [''0123456789'' ! (n mod 10)])"

declare decimal.simps [simp del]

definition indexed :: "val list \<Rightarrow> (string \<times> val) list" where
  "indexed xs = zip (map decimal [0..<length xs]) xs"

fun Object_assign :: "javascript \<Rightarrow> val \<Rightarrow> val \<Rightarrow> val option" where
  "Object_assign js (Obj target) (Obj source) = Some (Obj (assign_props target source))"
| "Object_assign js (Obj target) Undefined = Some (Obj target)"
| "Object_assign js (Obj target) (Bool b) = Some (Obj target)"
| "Object_assign js (Obj target) (Num n) = Some (Obj target)"
| "Object_assign js (Obj target) (Str s) =
     Some (Obj (assign_props target (indexed (map (\<lambda>c. Str [c]) s))))"
| "Object_assign js (Obj target) (Arr xs) = Some (Obj (assign_props target (indexed xs)))"
| "Object_assign js Undefined source = None"
| "Object_assign js target source = assign_other js target source"

text \<open>
  \<^verbatim>\<open>console.assert\<close> (the \<^verbatim>\<open>assert\<close> the source imports from \<^verbatim>\<open>"console"\<close>) writes a
  line to the error stream when the condition is false and returns either way.
  The value is the list of lines written.
\<close>

definition console_assert :: "bool \<Rightarrow> string \<Rightarrow> string list" where
  "console_assert condition message =
     (if condition then [] else [''Assertion failed: '' @ message])"

text \<open>
  \<^verbatim>\<open>bind\<close>: the \<^verbatim>\<open>console.assert\<close> on the two results only writes a diagnostic, which is
  not part of the value returned and is left out here.
\<close>

definition bind_p :: "javascript \<Rightarrow> parser \<Rightarrow> parser \<Rightarrow> parser" where
  "bind_p js this next = (\<lambda>input.
     case this input of
       None \<Rightarrow> None
     | Some Failure \<Rightarrow> Some Failure
     | Some Threw \<Rightarrow> Some Threw
     | Some (Success left) \<Rightarrow>
        (case next left of
           None \<Rightarrow> None
         | Some Failure \<Rightarrow> Some Failure
         | Some Threw \<Rightarrow> Some Threw
         | Some (Success right) \<Rightarrow>
            (case Object_assign js (parsed left) (parsed right) of
               None \<Rightarrow> Some Threw
             | Some merged \<Rightarrow> Some (Success \<lparr>parsed = merged, rest = rest right\<rparr>))))"

text \<open>
  The property read \<^verbatim>\<open>v[key]\<close>: on \<^verbatim>\<open>undefined\<close> it raises a \<^verbatim>\<open>TypeError\<close> (\<open>None\<close>); on
  a plain object it gives the own property, and \<^verbatim>\<open>undefined\<close> when there is none (keys
  are taken not to name a member of \<^verbatim>\<open>Object.prototype\<close>).
\<close>

definition get :: "javascript \<Rightarrow> val \<Rightarrow> string \<Rightarrow> val option" where
  "get js v key =
     (case v of
        Undefined \<Rightarrow> None
      | Obj props \<Rightarrow> Some (case map_of props key of None \<Rightarrow> Undefined | Some x \<Rightarrow> x)
      | other \<Rightarrow> get_other js other key)"

text \<open>
  \<^verbatim>\<open>const rest = key ? left.parsed[key] : left.parsed\<close>. An absent key and the empty
  string are falsy.
\<close>

definition extracted :: "javascript \<Rightarrow> string option \<Rightarrow> val \<Rightarrow> val option" where
  "extracted js key v =
     (if key \<noteq> None \<and> key \<noteq> Some [] then get js v (the key) else Some v)"

text \<open>\<^verbatim>\<open>next._parse({ rest })\<close>: the state given to \<^verbatim>\<open>next\<close> has no \<^verbatim>\<open>parsed\<close>.\<close>

definition bindInversed :: "javascript \<Rightarrow> parser \<Rightarrow> parser \<Rightarrow> string option \<Rightarrow> parser" where
  "bindInversed js this next key = (\<lambda>input.
     case this input of
       None \<Rightarrow> None
     | Some Failure \<Rightarrow> Some Failure
     | Some Threw \<Rightarrow> Some Threw
     | Some (Success left) \<Rightarrow>
        (case extracted js key (parsed left) of
           None \<Rightarrow> Some Threw
         | Some inner \<Rightarrow>
            (case next \<lparr>parsed = Undefined, rest = inner\<rparr> of
               None \<Rightarrow> None
             | Some Failure \<Rightarrow> Some Failure
             | Some Threw \<Rightarrow> Some Threw
             | Some (Success right) \<Rightarrow>
                (case Object_assign js (parsed left) (parsed right) of
                   None \<Rightarrow> Some Threw
                 | Some merged \<Rightarrow> Some (Success \<lparr>parsed = merged, rest = rest left\<rparr>)))))"

definition seq :: "parser \<Rightarrow> parser \<Rightarrow> parser" where
  "seq this next = (\<lambda>input.
     case this input of
       None \<Rightarrow> None
     | Some Failure \<Rightarrow> Some Failure
     | Some Threw \<Rightarrow> Some Threw
     | Some (Success left) \<Rightarrow> next left)"

definition seqInversed :: "javascript \<Rightarrow> parser \<Rightarrow> parser \<Rightarrow> string option \<Rightarrow> parser" where
  "seqInversed js this next key = (\<lambda>input.
     case this input of
       None \<Rightarrow> None
     | Some Failure \<Rightarrow> Some Failure
     | Some Threw \<Rightarrow> Some Threw
     | Some (Success left) \<Rightarrow>
        (case extracted js key (parsed left) of
           None \<Rightarrow> Some Threw
         | Some inner \<Rightarrow>
            (case next \<lparr>parsed = Undefined, rest = inner\<rparr> of
               None \<Rightarrow> None
             | Some Failure \<Rightarrow> Some Failure
             | Some Threw \<Rightarrow> Some Threw
             | Some (Success right) \<Rightarrow>
                 Some (Success \<lparr>parsed = parsed right, rest = rest left\<rparr>))))"

definition pass :: "parser \<Rightarrow> parser \<Rightarrow> parser" where
  "pass this next = (\<lambda>input.
     case this input of
       None \<Rightarrow> None
     | Some Failure \<Rightarrow> Some Failure
     | Some Threw \<Rightarrow> Some Threw
     | Some (Success left) \<Rightarrow>
        (case next left of
           None \<Rightarrow> None
         | Some Failure \<Rightarrow> Some Failure
         | Some Threw \<Rightarrow> Some Threw
         | Some (Success right) \<Rightarrow>
             Some (Success \<lparr>parsed = parsed left, rest = rest right\<rparr>)))"

text \<open>\<^verbatim>\<open>this._parse(input) || other._parse(input)\<close>: a \<^verbatim>\<open>Just\<close> is an object, hence truthy.\<close>

definition or_p :: "parser \<Rightarrow> parser \<Rightarrow> parser" where
  "or_p this other = (\<lambda>input.
     case this input of
       None \<Rightarrow> None
     | Some Failure \<Rightarrow> other input
     | Some Threw \<Rightarrow> Some Threw
     | Some (Success r) \<Rightarrow> Some (Success r))"

definition fmap :: "parser \<Rightarrow> (val \<Rightarrow> val) \<Rightarrow> parser" where
  "fmap this mapper = (\<lambda>input.
     case this input of
       None \<Rightarrow> None
     | Some Failure \<Rightarrow> Some Failure
     | Some Threw \<Rightarrow> Some Threw
     | Some (Success r) \<Rightarrow> Some (Success \<lparr>parsed = mapper (parsed r), rest = rest r\<rparr>))"

definition default_p :: "parser \<Rightarrow> val \<Rightarrow> parser" where
  "default_p this defaultValue = (\<lambda>input.
     case this input of
       None \<Rightarrow> None
     | Some Failure \<Rightarrow> Some (Success \<lparr>parsed = defaultValue, rest = rest input\<rparr>)
     | Some Threw \<Rightarrow> Some Threw
     | Some (Success r) \<Rightarrow> Some (Success r))"

subsection \<open>\<^verbatim>\<open>many\<close>\<close>

text \<open>
  \<^verbatim>\<open>min\<close> and \<^verbatim>\<open>max\<close> (here \<open>min_n\<close>, \<open>max_n\<close>) are numbers, ignored when zero
  (falsy); \<^verbatim>\<open>condition\<close> is optional.
  \<^verbatim>\<open>overflow\<close>, \<^verbatim>\<open>underflow\<close> and \<^verbatim>\<open>goOn\<close> are the closures of the source, with the
  variables they read as arguments.
\<close>

definition overflow :: "int \<Rightarrow> nat \<Rightarrow> bool" where
  "overflow max_n iterations = (if max_n \<noteq> 0 then int iterations > max_n else False)"

definition underflow :: "int \<Rightarrow> nat \<Rightarrow> bool" where
  "underflow min_n iterations = (if min_n \<noteq> 0 then int iterations < min_n else False)"

definition goOn :: "(val \<Rightarrow> bool) option \<Rightarrow> int \<Rightarrow> val \<Rightarrow> nat \<Rightarrow> bool" where
  "goOn condition max_n text iterations =
     (case condition of
        Some c \<Rightarrow> truthy text \<and> c text \<and> \<not> overflow max_n iterations
      | None \<Rightarrow> truthy text \<and> \<not> overflow max_n iterations)"

text \<open>The \<^verbatim>\<open>return\<close> after the loop.\<close>

definition many_return :: "int \<Rightarrow> int \<Rightarrow> val \<Rightarrow> val list \<Rightarrow> nat \<Rightarrow> outcome" where
  "many_return min_n max_n text elements iterations =
     (if overflow max_n iterations \<or> underflow min_n iterations
      then Failure
      else Success \<lparr>parsed = Arr elements, rest = text\<rparr>)"

text \<open>
  The \<^verbatim>\<open>while (goOn())\<close> loop, with \<^verbatim>\<open>text\<close>, \<^verbatim>\<open>elements\<close> and \<^verbatim>\<open>iterations\<close> as loop
  state. Nothing in the source bounds the number of rounds, so the loop is a partial
  function: \<open>None\<close> when it runs forever.
\<close>

partial_function (option) many_loop ::
  "parser \<Rightarrow> int \<Rightarrow> int \<Rightarrow> (val \<Rightarrow> bool) option \<Rightarrow> val \<Rightarrow> val \<Rightarrow> val list \<Rightarrow> nat \<Rightarrow> outcome option"
where
  "many_loop this min_n max_n condition v text elements iterations =
     (if goOn condition max_n text iterations
      then (case this \<lparr>parsed = v, rest = text\<rparr> of
              None \<Rightarrow> None
            | Some Failure \<Rightarrow> Some (many_return min_n max_n text elements iterations)
            | Some Threw \<Rightarrow> Some Threw
            | Some (Success result) \<Rightarrow>
                many_loop this min_n max_n condition v (rest result)
                  (elements @ [parsed result]) (Suc iterations))
      else Some (many_return min_n max_n text elements iterations))"

definition many :: "parser \<Rightarrow> int \<Rightarrow> int \<Rightarrow> (val \<Rightarrow> bool) option \<Rightarrow> parser" where
  "many this min_n max_n condition = (\<lambda>input.
     many_loop this min_n max_n condition (parsed input) (rest input) [] 0)"

section \<open>Quoted spans, balanced brackets and the interleaving scanner\<close>

text \<open>
  \<^verbatim>\<open>cs => cs.join('')\<close>, the mapper of \<^verbatim>\<open>untilQuote\<close>. It is applied to what \<^verbatim>\<open>many\<close>
  over \<^verbatim>\<open>item\<close> returns on a string, an array of one-unit strings, and joins them. (An
  \<^verbatim>\<open>undefined\<close> element joins as the empty string; other elements and other arguments
  do not reach it.)
\<close>

fun join :: "val \<Rightarrow> val" where
  "join (Arr cs) = Str (concat (map (\<lambda>c. case c of Str s \<Rightarrow> s | _ \<Rightarrow> []) cs))"
| "join v = Undefined"

text \<open>
  \<^verbatim>\<open>text => !text.startsWith(quote)\<close>, the condition of \<^verbatim>\<open>untilQuote\<close>. It is asked on the
  remainders behind the opening delimiter, which are strings.
\<close>

definition notQuote :: "string \<Rightarrow> val \<Rightarrow> bool" where
  "notQuote quote text = (case text of Str s \<Rightarrow> \<not> prefix quote s | _ \<Rightarrow> True)"

definition Parser_quoted :: "javascript \<Rightarrow> string \<Rightarrow> parser" where
  "Parser_quoted js quote =
     (let exactQuote = Parser_string js quote;
          untilQuote = fmap (many (Parser_item js) 0 0 (Some (notQuote quote))) join
      in pass (seq exactQuote untilQuote) exactQuote)"

text \<open>
  The scanning loop of \<^verbatim>\<open>brackets\<close>:
  \<^verbatim>\<open>while (balance && index < text.length) { ... ++index; }\<close>, returning the final
  \<^verbatim>\<open>index\<close> and \<^verbatim>\<open>balance\<close>. \<^verbatim>\<open>left\<close> and \<^verbatim>\<open>right\<close> are strings, compared with the
  one-unit string \<^verbatim>\<open>text[index]\<close>.
\<close>

function brackets_scan :: "string \<Rightarrow> string \<Rightarrow> string \<Rightarrow> nat \<Rightarrow> int \<Rightarrow> nat \<times> int" where
  "brackets_scan left right text index balance =
     (if balance \<noteq> 0 \<and> index < length text
      then (if [text ! index] = left
            then brackets_scan left right text (Suc index) (balance + 1)
            else if [text ! index] = right
            then brackets_scan left right text (Suc index) (balance - 1)
            else brackets_scan left right text (Suc index) balance)
      else (index, balance))"
  by pat_completeness auto
termination
  by (relation "measure (\<lambda>(left, right, text, index, balance). length text - index)") auto

declare brackets_scan.simps [simp del]

text \<open>\<^verbatim>\<open>text.slice(a, b)\<close> for \<open>0 \<le> a\<close> and \<open>0 \<le> b\<close>.\<close>

definition slice :: "string \<Rightarrow> nat \<Rightarrow> nat \<Rightarrow> string" where
  "slice text a b = take (b - a) (drop a text)"

definition brackets_internal :: "javascript \<Rightarrow> string \<Rightarrow> string \<Rightarrow> parser" where
  "brackets_internal js left right = (\<lambda>input.
     case rest input of
       Str text \<Rightarrow>
         if text \<noteq> [] \<and> [hd text] = left
         then (case brackets_scan left right text 1 1 of
                 (index, balance) \<Rightarrow>
                   if balance \<noteq> 0 then Some Failure
                   else Some (Success \<lparr>parsed = Str (slice text 1 (index - 1)),
                                        rest = Str (drop index text)\<rparr>))
         else Some Failure
     | other \<Rightarrow> if truthy other then brackets_other js left right input else Some Failure)"

text \<open>
  \<^verbatim>\<open>Parser.brackets\<close> first calls \<^verbatim>\<open>assert(left != right, ...)\<close> and then builds the
  parser: the result is the lines the assertion wrote, and the parser.
\<close>

definition Parser_brackets :: "javascript \<Rightarrow> string \<Rightarrow> string \<Rightarrow> string list \<times> parser" where
  "Parser_brackets js left right =
     (console_assert (left \<noteq> right) ''The left and right braces must differ'',
      brackets_internal js left right)"

text \<open>
  \<^verbatim>\<open>makeText\<close> of \<^verbatim>\<open>Parser.repeat\<close>, on the pair of the variables it updates
  (\<^verbatim>\<open>chars\<close>, \<^verbatim>\<open>elements\<close>).
\<close>

definition makeText :: "(val \<Rightarrow> val) \<Rightarrow> string \<times> val list \<Rightarrow> string \<times> val list" where
  "makeText fromText ce =
     (case ce of (chars, elements) \<Rightarrow>
        if chars \<noteq> [] then ([], elements @ [fromText (Str chars)]) else (chars, elements))"

text \<open>
  The loop of \<^verbatim>\<open>Parser.repeat\<close>. On the element parser's failure it takes
  \<^verbatim>\<open>text[0]\<close> and goes on with \<^verbatim>\<open>text.slice(1)\<close>.
\<close>

partial_function (option) repeat_loop ::
  "javascript \<Rightarrow> parser \<Rightarrow> (val \<Rightarrow> val) \<Rightarrow> (val \<Rightarrow> bool) \<Rightarrow> val \<Rightarrow> string \<Rightarrow> val list \<Rightarrow> outcome option"
where
  "repeat_loop js elementParser fromText condition text chars elements =
     (if truthy text \<and> condition text
      then (case elementParser \<lparr>parsed = Obj [], rest = text\<rparr> of
              None \<Rightarrow> None
            | Some Threw \<Rightarrow> Some Threw
            | Some (Success result) \<Rightarrow>
                (case makeText fromText (chars, elements) of
                   (chars', elements') \<Rightarrow>
                     repeat_loop js elementParser fromText condition (rest result) chars'
                       (elements' @ [parsed result]))
            | Some Failure \<Rightarrow>
                (case text of
                   Str s \<Rightarrow>
                     repeat_loop js elementParser fromText condition (Str (drop 1 s))
                       (chars @ [hd s]) elements
                 | other \<Rightarrow>
                     repeat_other js elementParser fromText condition other chars elements))
      else (case makeText fromText (chars, elements) of
              (chars', elements') \<Rightarrow>
                if elements' \<noteq> []
                then Some (Success \<lparr>parsed = Arr elements', rest = text\<rparr>)
                else Some Failure))"

definition Parser_repeat ::
  "javascript \<Rightarrow> parser \<Rightarrow> (val \<Rightarrow> val) \<Rightarrow> (val \<Rightarrow> bool) \<Rightarrow> parser" where
  "Parser_repeat js elementParser fromText condition = (\<lambda>input.
     repeat_loop js elementParser fromText condition (rest input) [] [])"

section \<open>Parsers built from the library\<close>

text \<open>
  The parsers a caller can build: the primitive constructors, closed under the
  combinators. Predicates and mappers are the caller's pure functions, defined on every
  value they can be given.
\<close>

inductive built :: "javascript \<Rightarrow> parser \<Rightarrow> bool" for js where
  b_result: "built js (Parser_result v)"
| b_zero: "built js Parser_zero"
| b_item: "built js (Parser_item js)"
| b_char: "built js (Parser_char js c)"
| b_sat: "built js (Parser_sat js condition)"
| b_string: "built js (Parser_string js template)"
| b_peek: "built js (Parser_peek condition)"
| b_all: "built js Parser_all"
| b_end: "built js Parser_end"
| b_quoted: "built js (Parser_quoted js quote)"
| b_brackets: "built js (snd (Parser_brackets js left right))"
| b_repeat: "built js E \<Longrightarrow> built js (Parser_repeat js E fromText condition)"
| b_save: "built js P \<Longrightarrow> built js (save P key)"
| b_bind: "built js P \<Longrightarrow> built js Q \<Longrightarrow> built js (bind_p js P Q)"
| b_bindInversed: "built js P \<Longrightarrow> built js Q \<Longrightarrow> built js (bindInversed js P Q key_opt)"
| b_seq: "built js P \<Longrightarrow> built js Q \<Longrightarrow> built js (seq P Q)"
| b_seqInversed: "built js P \<Longrightarrow> built js Q \<Longrightarrow> built js (seqInversed js P Q key_opt)"
| b_pass: "built js P \<Longrightarrow> built js Q \<Longrightarrow> built js (pass P Q)"
| b_or: "built js P \<Longrightarrow> built js Q \<Longrightarrow> built js (or_p P Q)"
| b_many: "built js P \<Longrightarrow> built js (many P min_n max_n condition_opt)"
| b_fmap: "built js P \<Longrightarrow> built js (fmap P mapper)"
| b_default: "built js P \<Longrightarrow> built js (default_p P defaultValue)"


text \<open>
  One value of the parameter, for the examples: each of its places raises a
  \<^verbatim>\<open>TypeError\<close>.
\<close>

definition raising :: javascript where
  "raising =
     \<lparr>item_other = (\<lambda>input. Some Threw),
      char_other = (\<lambda>c input. Some Threw),
      sat_other = (\<lambda>condition input. Some Threw),
      string_other = (\<lambda>template input. Some Threw),
      brackets_other = (\<lambda>left right input. Some Threw),
      repeat_other = (\<lambda>E fromText condition text chars elements. Some Threw),
      get_other = (\<lambda>v key. None),
      assign_other = (\<lambda>target source. None)\<rparr>"

section \<open>Notions used to state the properties\<close>

text \<open>
  A parser consumes forward when, given a string remainder, the remainder of every
  \<open>Success\<close> is a string and a suffix of it. It never throws on text when, given a string
  remainder, it raises no \<^verbatim>\<open>TypeError\<close>.
\<close>

definition consumes_forward :: "parser \<Rightarrow> bool" where
  "consumes_forward P =
     (\<forall>input s r. rest input = Str s \<and> P input = Some (Success r)
        \<longrightarrow> (\<exists>t. rest r = Str t \<and> suffix t s))"

definition never_throws :: "parser \<Rightarrow> bool" where
  "never_throws P = (\<forall>input s. rest input = Str s \<longrightarrow> P input \<noteq> Some Threw)"

text \<open>
  A text has no unmatched occurrence of the brackets \<open>l\<close> and \<open>r\<close> when, reading it from
  the left with the number of brackets still open, every \<open>r\<close> closes an open \<open>l\<close> and no
  \<open>l\<close> is left open at the end.
\<close>

fun no_unmatched_from :: "char \<Rightarrow> char \<Rightarrow> nat \<Rightarrow> string \<Rightarrow> bool" where
  "no_unmatched_from l r depth [] = (depth = 0)"
| "no_unmatched_from l r depth (c # cs) =
     (if c = l then no_unmatched_from l r (Suc depth) cs
      else if c = r then depth \<noteq> 0 \<and> no_unmatched_from l r (depth - 1) cs
      else no_unmatched_from l r depth cs)"

definition no_unmatched :: "char \<Rightarrow> char \<Rightarrow> string \<Rightarrow> bool" where
  "no_unmatched l r t = no_unmatched_from l r 0 t"

text \<open>
  Rounds of the \<^verbatim>\<open>many\<close> loop, apart from the bound \<^verbatim>\<open>max\<close>. \<open>holds\<close>: the optional
  condition is absent or true. \<open>rounds P c v n t = Some (xs, t')\<close>: from the text \<open>t\<close> the
  first \<open>n\<close> rounds all succeed (before each one the remainder is truthy, that is not
  empty, and the condition holds, and \<open>P\<close> succeeds), with values \<open>xs\<close> in order and
  remainder \<open>t'\<close>. \<open>stops\<close>: no further round succeeds at \<open>t\<close>, because the text is
  empty, the condition is false or \<open>P\<close> fails.
\<close>

definition holds :: "(val \<Rightarrow> bool) option \<Rightarrow> val \<Rightarrow> bool" where
  "holds condition t = (case condition of None \<Rightarrow> True | Some c \<Rightarrow> c t)"

fun rounds :: "parser \<Rightarrow> (val \<Rightarrow> bool) option \<Rightarrow> val \<Rightarrow> nat \<Rightarrow> val \<Rightarrow> (val list \<times> val) option" where
  "rounds P condition v 0 t = Some ([], t)"
| "rounds P condition v (Suc n) t =
     (if truthy t \<and> holds condition t
      then (case P \<lparr>parsed = v, rest = t\<rparr> of
              Some (Success r) \<Rightarrow>
                (case rounds P condition v n (rest r) of
                   Some (xs, t') \<Rightarrow> Some (parsed r # xs, t')
                 | None \<Rightarrow> None)
            | _ \<Rightarrow> None)
      else None)"

definition stops :: "parser \<Rightarrow> (val \<Rightarrow> bool) option \<Rightarrow> val \<Rightarrow> val \<Rightarrow> bool" where
  "stops P condition v t =
     (\<not> truthy t \<or> \<not> holds condition t \<or> P \<lparr>parsed = v, rest = t\<rparr> = Some Failure)"

text \<open>
  The interleaving scanner as the specification words it, on text. A configuration is
  the current remainder, the pending raw characters and the sequence produced so far.
  \<open>flush\<close> passes pending characters, if any, through the text converter as one entry.
  \<^item> \<open>finish\<close>: when the remainder is empty or the condition is false, the loop ends and the
    pending text is flushed.
  \<^item> \<open>element\<close>: when the element parser succeeds, the pending text is flushed, the
    element's value is appended, and the scan goes on at the element's remainder.
  \<^item> \<open>raw\<close>: when the element parser fails, exactly one character moves into the pending
    text.
  \<open>interleave_result\<close>: \<open>Failure\<close> when the sequence produced is empty, otherwise the
  sequence with the final remainder. \<open>keeps_text\<close>: given a string remainder, the parser
  succeeds with string remainders only.
\<close>

definition flush :: "(val \<Rightarrow> val) \<Rightarrow> string \<Rightarrow> val list \<Rightarrow> val list" where
  "flush textConverter pending out =
     (if pending = [] then out else out @ [textConverter (Str pending)])"

inductive interleave_spec ::
  "parser \<Rightarrow> (val \<Rightarrow> val) \<Rightarrow> (val \<Rightarrow> bool) \<Rightarrow> string \<Rightarrow> string \<Rightarrow> val list \<Rightarrow> string \<times> val list \<Rightarrow> bool"
  for E textConverter condition
where
  finish:
    "\<not> (remainder \<noteq> [] \<and> condition (Str remainder)) \<Longrightarrow>
     interleave_spec E textConverter condition remainder pending out
       (remainder, flush textConverter pending out)"
| element:
    "remainder \<noteq> [] \<Longrightarrow> condition (Str remainder) \<Longrightarrow>
     E \<lparr>parsed = Obj [], rest = Str remainder\<rparr> = Some (Success r) \<Longrightarrow>
     rest r = Str advanced \<Longrightarrow>
     interleave_spec E textConverter condition advanced []
       (flush textConverter pending out @ [parsed r]) final \<Longrightarrow>
     interleave_spec E textConverter condition remainder pending out final"
| raw:
    "remainder \<noteq> [] \<Longrightarrow> condition (Str remainder) \<Longrightarrow>
     E \<lparr>parsed = Obj [], rest = Str remainder\<rparr> = Some Failure \<Longrightarrow>
     interleave_spec E textConverter condition (drop 1 remainder) (pending @ [hd remainder])
       out final \<Longrightarrow>
     interleave_spec E textConverter condition remainder pending out final"

code_pred (modes: i \<Rightarrow> i \<Rightarrow> i \<Rightarrow> i \<Rightarrow> i \<Rightarrow> i \<Rightarrow> o \<Rightarrow> bool) interleave_spec .

definition interleave_result :: "string \<times> val list \<Rightarrow> outcome" where
  "interleave_result final =
     (if snd final = [] then Failure
      else Success \<lparr>parsed = Arr (snd final), rest = Str (fst final)\<rparr>)"

definition keeps_text :: "parser \<Rightarrow> bool" where
  "keeps_text P =
     (\<forall>input s r. rest input = Str s \<and> P input = Some (Success r) \<longrightarrow> (\<exists>t. rest r = Str t))"



section \<open>Monotonic consumption\<close>

lemma consumes_forwardI:
  "(\<And>input s r. rest input = Str s \<Longrightarrow> P input = Some (Success r) \<Longrightarrow>
      \<exists>t. rest r = Str t \<and> suffix t s) \<Longrightarrow> consumes_forward P"
  by (auto simp: consumes_forward_def)

lemma consumes_forwardD:
  "consumes_forward P \<Longrightarrow> rest input = Str s \<Longrightarrow> P input = Some (Success r) \<Longrightarrow>
   \<exists>t. rest r = Str t \<and> suffix t s"
  by (auto simp: consumes_forward_def)


lemma never_throwsD:
  "never_throws P \<Longrightarrow> rest input = Str s \<Longrightarrow> P input \<noteq> Some Threw"
  by (simp add: never_throws_def)

lemma cf_primitives:
  "consumes_forward (Parser_result v)"
  "consumes_forward Parser_zero"
  "consumes_forward (Parser_item js)"
  "consumes_forward (Parser_char js c)"
  "consumes_forward (Parser_sat js cond)"
  "consumes_forward (Parser_string js template)"
  "consumes_forward (Parser_peek cond')"
  "consumes_forward Parser_all"
  "consumes_forward Parser_end"
  by (auto simp: consumes_forward_def Parser_result_def Parser_zero_def Parser_item_def
      Parser_char_def Parser_sat_def Parser_string_def Parser_peek_def Parser_all_def
      Parser_end_def suffix_drop split: if_splits)


lemma cf_save: "consumes_forward P \<Longrightarrow> consumes_forward (save P key)"
  by (auto simp: consumes_forward_def save_def split: option.splits outcome.splits)

lemma cf_fmap: "consumes_forward P \<Longrightarrow> consumes_forward (fmap P mapper)"
  by (auto simp: consumes_forward_def fmap_def split: option.splits outcome.splits)

lemma cf_default: "consumes_forward P \<Longrightarrow> consumes_forward (default_p P d)"
  by (auto simp: consumes_forward_def default_p_def split: option.splits outcome.splits)

lemma cf_or: "consumes_forward P \<Longrightarrow> consumes_forward Q \<Longrightarrow> consumes_forward (or_p P Q)"
  by (auto simp: consumes_forward_def or_p_def split: option.splits outcome.splits)

lemma cf_step:
  assumes "consumes_forward P" "consumes_forward Q" "rest input = Str s"
    "P input = Some (Success l)" "Q l = Some (Success r)"
  shows "\<exists>t. rest r = Str t \<and> suffix t s"
proof -
  from consumes_forwardD[OF assms(1) assms(3) assms(4)]
  obtain u where u: "rest l = Str u" "suffix u s" by blast
  from consumes_forwardD[OF assms(2) u(1) assms(5)]
  obtain t where t: "rest r = Str t" "suffix t u" by blast
  from t u show ?thesis using suffix_order.trans by blast
qed

lemma cf_seq: "consumes_forward P \<Longrightarrow> consumes_forward Q \<Longrightarrow> consumes_forward (seq P Q)"
  by (rule consumes_forwardI)
     (auto simp: seq_def split: option.splits outcome.splits dest: cf_step)

lemma cf_pass: "consumes_forward P \<Longrightarrow> consumes_forward Q \<Longrightarrow> consumes_forward (pass P Q)"
  by (rule consumes_forwardI)
     (auto simp: pass_def split: option.splits outcome.splits dest: cf_step)

lemma cf_bind: "consumes_forward P \<Longrightarrow> consumes_forward Q \<Longrightarrow> consumes_forward (bind_p js P Q)"
  by (rule consumes_forwardI)
     (auto simp: bind_p_def split: option.splits outcome.splits dest: cf_step)

lemma cf_bindInversed: "consumes_forward P \<Longrightarrow> consumes_forward (bindInversed js P Q key)"
  by (rule consumes_forwardI)
     (auto simp: bindInversed_def split: option.splits outcome.splits dest: consumes_forwardD)

lemma cf_seqInversed: "consumes_forward P \<Longrightarrow> consumes_forward (seqInversed js P Q key)"
  by (rule consumes_forwardI)
     (auto simp: seqInversed_def split: option.splits outcome.splits dest: consumes_forwardD)







lemmas many_loop_induct = many_loop.raw_induct[rotated 1, consumes 1, case_names step]
lemmas repeat_loop_induct = repeat_loop.raw_induct[rotated 1, consumes 1, case_names step]

text \<open>
  Both loops keep a string text a string while the parser they run consumes forward, and
  raise nothing on it when that parser never throws on text.
\<close>

lemma many_loop_on_text:
  "many_loop P min_n max_n c v t elements iterations = Some out \<Longrightarrow>
   consumes_forward P \<longrightarrow>
     (\<forall>s. t = Str s \<longrightarrow>
        (\<forall>r. out = Success r \<longrightarrow> (\<exists>u. rest r = Str u \<and> suffix u s))
        \<and> (never_throws P \<longrightarrow> out \<noteq> Threw))"
proof (induction rule: many_loop_induct)
  case (step loop P min_n max_n c v t elements iterations out)
  show ?case
  proof (intro impI allI)
    fix s
    assume cf: "consumes_forward P" and t: "t = Str s"
    show "(\<forall>r. out = Success r \<longrightarrow> (\<exists>u. rest r = Str u \<and> suffix u s))
        \<and> (never_throws P \<longrightarrow> out \<noteq> Threw)"
    proof (cases "goOn c max_n t iterations")
      case False
      with step.hyps t show ?thesis
        by (auto simp: many_return_def split: if_splits)
    next
      case True
      show ?thesis
      proof (cases "P \<lparr>parsed = v, rest = t\<rparr>")
        case None
        with True step.hyps show ?thesis by simp
      next
        case (Some o1)
        show ?thesis
        proof (cases o1)
          case Failure
          with True Some step.hyps t show ?thesis
            by (auto simp: many_return_def split: if_splits)
        next
          case Threw
          with True Some step.hyps t show ?thesis
            by (auto dest: never_throwsD[where input = "\<lparr>parsed = v, rest = Str s\<rparr>"])
        next
          case (Success result)
          with True Some step.hyps
          have "loop P min_n max_n c v (rest result) (elements @ [parsed result]) (Suc iterations) = Some out"
            by simp
          from step.IH[OF this] cf
          have ih: "\<forall>s'. rest result = Str s' \<longrightarrow>
              (\<forall>r. out = Success r \<longrightarrow> (\<exists>u. rest r = Str u \<and> suffix u s'))
              \<and> (never_throws P \<longrightarrow> out \<noteq> Threw)"
            by simp
          from consumes_forwardD[OF cf, of "\<lparr>parsed = v, rest = t\<rparr>" s result] Some Success t
          obtain s' where s': "rest result = Str s'" "suffix s' s"
            by auto
          from ih s' show ?thesis
            using suffix_order.trans by blast
        qed
      qed
    qed
  qed
qed

lemma cf_many: "consumes_forward P \<Longrightarrow> consumes_forward (many P min_n max_n c)"
  by (rule consumes_forwardI) (auto simp: many_def dest: many_loop_on_text)


lemma repeat_loop_on_text:
  "repeat_loop js E f c t chars elements = Some out \<Longrightarrow>
   consumes_forward E \<longrightarrow>
     (\<forall>s. t = Str s \<longrightarrow>
        (\<forall>r. out = Success r \<longrightarrow> (\<exists>u. rest r = Str u \<and> suffix u s))
        \<and> (never_throws E \<longrightarrow> out \<noteq> Threw))"
proof (induction rule: repeat_loop_induct)
  case (step loop js E f c t chars elements out)
  show ?case
  proof (intro impI allI)
    fix s
    assume cf: "consumes_forward E" and t: "t = Str s"
    show "(\<forall>r. out = Success r \<longrightarrow> (\<exists>u. rest r = Str u \<and> suffix u s))
        \<and> (never_throws E \<longrightarrow> out \<noteq> Threw)"
    proof (cases "truthy t \<and> c t")
      case False
      with step.hyps t show ?thesis
        by (auto split: if_splits prod.splits)
    next
      case True
      show ?thesis
      proof (cases "E \<lparr>parsed = Obj [], rest = t\<rparr>")
        case None
        with True step.hyps show ?thesis by simp
      next
        case (Some o1)
        show ?thesis
        proof (cases o1)
          case Failure
          with True Some step.hyps t
          have "loop js E f c (Str (drop 1 s)) (chars @ [hd s]) elements = Some out"
            by simp
          from step.IH[OF this] cf
          have "(\<forall>r. out = Success r \<longrightarrow> (\<exists>u. rest r = Str u \<and> suffix u (drop 1 s)))
              \<and> (never_throws E \<longrightarrow> out \<noteq> Threw)"
            by simp
          then show ?thesis
            using suffix_drop suffix_order.trans by blast
        next
          case Threw
          with True Some step.hyps t show ?thesis
            by (auto dest: never_throwsD[where input = "\<lparr>parsed = Obj [], rest = Str s\<rparr>"])
        next
          case (Success result)
          obtain chars' elements' where mt: "makeText f (chars, elements) = (chars', elements')"
            by (cases "makeText f (chars, elements)")
          with Success True Some step.hyps
          have "loop js E f c (rest result) chars' (elements' @ [parsed result]) = Some out"
            by simp
          from step.IH[OF this] cf
          have ih: "\<forall>s'. rest result = Str s' \<longrightarrow>
              (\<forall>r. out = Success r \<longrightarrow> (\<exists>u. rest r = Str u \<and> suffix u s'))
              \<and> (never_throws E \<longrightarrow> out \<noteq> Threw)"
            by simp
          from consumes_forwardD[OF cf, of "\<lparr>parsed = Obj [], rest = t\<rparr>" s result] Some Success t
          obtain s' where s': "rest result = Str s'" "suffix s' s"
            by auto
          from ih s' show ?thesis
            using suffix_order.trans by blast
        qed
      qed
    qed
  qed
qed

lemma cf_repeat: "consumes_forward E \<Longrightarrow> consumes_forward (Parser_repeat js E f c)"
  by (rule consumes_forwardI) (auto simp: Parser_repeat_def dest: repeat_loop_on_text)


lemma cf_brackets: "consumes_forward (snd (Parser_brackets js left right))"
  by (auto simp: consumes_forward_def Parser_brackets_def brackets_internal_def suffix_drop
      split: if_splits prod.splits)


lemma cf_quoted: "consumes_forward (Parser_quoted js quote)"
  unfolding Parser_quoted_def Let_def
  by (intro cf_pass cf_seq cf_fmap cf_many cf_primitives)


lemma built_consumes_forward: "built js P \<Longrightarrow> consumes_forward P"
  by (induction rule: built.induct)
     (simp_all add: cf_primitives cf_quoted cf_brackets cf_repeat cf_save cf_bind cf_bindInversed
        cf_seq cf_seqInversed cf_pass cf_or cf_many cf_fmap cf_default)



subsection \<open>Runs that never return\<close>

text \<open>
  Where the parser succeeds and returns the text it was given, an unbounded loop whose
  condition holds is back in the same situation after the round, and never returns.
\<close>

lemma goOn_iff: "goOn c max_n t k = (truthy t \<and> holds c t \<and> \<not> overflow max_n k)"
  by (simp add: goOn_def holds_def split: option.splits)



subsection \<open>The remainder of a run\<close>




section \<open>Literal strings\<close>

text \<open>
  Claim C7, as the code has it. \<^verbatim>\<open>Parser.string(s)\<close> succeeds on \<open>x\<close> exactly when \<open>x\<close> is
  not empty and starts with \<open>s\<close>; the value is then \<open>s\<close> and the remainder is \<open>x\<close> advanced
  by the length of \<open>s\<close>. Otherwise it returns \<open>Failure\<close>: the guard \<^verbatim>\<open>input.rest &&\<close>
  rejects the empty input before \<^verbatim>\<open>startsWith\<close> is asked, for the empty template too.
\<close>

theorem literal_matches:
  "parseText (Parser_string js s) x =
     Some (if x \<noteq> [] \<and> prefix s x
           then Success \<lparr>parsed = Str s, rest = Str (drop (length s) x)\<rparr>
           else Failure)"
  by (simp add: parseText_def Parser_string_def)

theorem literal_matches_witness:
  "parseText (Parser_string raising ''line'') ''lines'' = Some (Success \<lparr>parsed = Str ''line'', rest = Str ''s''\<rparr>)
   \<and> parseText (Parser_string raising ''line'') '' line'' = Some Failure"
  using literal_matches[of raising "''line''" "''lines''"]
    literal_matches[of raising "''line''" "'' line''"]
  by simp

text \<open>
  The claim as stated includes the empty template on every input. The empty input starts
  with the empty template, and the parser fails on it.
\<close>

theorem literal_empty_input_counterexample:
  "prefix '''' '''' \<and> parseText (Parser_string raising '''') '''' = Some Failure"
  by (simp add: parseText_def Parser_string_def)

section \<open>Identical bracket markers\<close>

text \<open>
  With \<open>left = right\<close> the scan never takes the \<^verbatim>\<open>else if (char == right)\<close> branch, so the
  balance never decreases and the parser fails on every text.
\<close>

lemma brackets_scan_same:
  "left = right \<Longrightarrow> 0 < balance \<Longrightarrow> 0 < snd (brackets_scan left right t index balance)"
proof (induction left right t index balance rule: brackets_scan.induct)
  case (1 left right t index balance)
  then show ?case
    by (subst brackets_scan.simps) auto
qed

lemma brackets_same_always_fails:
  "snd (Parser_brackets js l l) \<lparr>parsed = v, rest = Str t\<rparr> = Some Failure"
  using brackets_scan_same[of l l 1 t 1]
  by (auto simp: Parser_brackets_def brackets_internal_def split: prod.splits)

text \<open>
  Claim C8 asks for a hard fault when \<^verbatim>\<open>brackets\<close> is given identical markers. The
  source asserts \<^verbatim>\<open>left != right\<close> with \<^verbatim>\<open>console.assert\<close>, which writes one line and
  returns: \<^verbatim>\<open>Parser.brackets('(', '(')\<close> yields a parser, and that parser answers
  \<open>Failure\<close> on \<^verbatim>\<open>"(a("\<close>.
\<close>

theorem brackets_same_markers_no_fault:
  "fst (Parser_brackets raising ''('' ''('')
     = [''Assertion failed: The left and right braces must differ'']
   \<and> parseText (snd (Parser_brackets raising ''('' ''('')) ''(a('' = Some Failure"
  using brackets_same_always_fails[of raising "''(''" Undefined "''(a(''"]
  by (simp add: Parser_brackets_def console_assert_def parseText_def)

section \<open>Merging the results of two parsers\<close>






section \<open>Balanced brackets\<close>

text \<open>
  The scan started behind an opening bracket, at depth \<open>d + 1\<close>, runs over a text whose
  brackets are matched from depth \<open>d\<close> and stops right behind the closing bracket that
  follows it.
\<close>

lemma brackets_scan_balanced:
  "no_unmatched_from l r d t \<Longrightarrow> l \<noteq> r \<Longrightarrow>
   brackets_scan [l] [r] (pre @ t @ r # u) (length pre) (int d + 1)
     = (length pre + length t + 1, 0)"
proof (induction t arbitrary: pre d)
  case Nil
  then have d: "d = 0" by simp
  have "brackets_scan [l] [r] (pre @ r # u) (length pre) 1
      = brackets_scan [l] [r] (pre @ r # u) (Suc (length pre)) 0"
    using Nil.prems(2) by (subst brackets_scan.simps) simp
  also have "\<dots> = (Suc (length pre), 0)"
    by (subst brackets_scan.simps) simp
  finally show ?case using d by simp
next
  case (Cons c cs)
  have at: "(pre @ (c # cs) @ r # u) ! length pre = c"
    by simp
  have shift: "pre @ (c # cs) @ r # u = (pre @ [c]) @ cs @ r # u"
    by simp
  have len: "length pre < length (pre @ (c # cs) @ r # u)"
    by simp
  show ?case
  proof (cases "c = l")
    case True
    with Cons.prems have nu: "no_unmatched_from l r (Suc d) cs" by simp
    have "brackets_scan [l] [r] (pre @ (c # cs) @ r # u) (length pre) (int d + 1)
        = brackets_scan [l] [r] (pre @ (c # cs) @ r # u) (Suc (length pre)) (int d + 1 + 1)"
      using True at len by (subst brackets_scan.simps) simp
    also have "\<dots> = brackets_scan [l] [r] ((pre @ [c]) @ cs @ r # u) (length (pre @ [c])) (int (Suc d) + 1)"
      by simp
    also have "\<dots> = (length (pre @ [c]) + length cs + 1, 0)"
      by (rule Cons.IH[OF nu Cons.prems(2)])
    finally show ?thesis by simp
  next
    case False
    show ?thesis
    proof (cases "c = r")
      case True
      with False Cons.prems have d: "d \<noteq> 0" and nu: "no_unmatched_from l r (d - 1) cs"
        by auto
      have "brackets_scan [l] [r] (pre @ (c # cs) @ r # u) (length pre) (int d + 1)
          = brackets_scan [l] [r] (pre @ (c # cs) @ r # u) (Suc (length pre)) (int d + 1 - 1)"
        using True False at len by (subst brackets_scan.simps) simp
      also have "\<dots> = brackets_scan [l] [r] ((pre @ [c]) @ cs @ r # u) (length (pre @ [c])) (int (d - 1) + 1)"
        using d by simp
      also have "\<dots> = (length (pre @ [c]) + length cs + 1, 0)"
        by (rule Cons.IH[OF nu Cons.prems(2)])
      finally show ?thesis by simp
    next
      case cr: False
      with False Cons.prems have nu: "no_unmatched_from l r d cs" by simp
      have "brackets_scan [l] [r] (pre @ (c # cs) @ r # u) (length pre) (int d + 1)
          = brackets_scan [l] [r] (pre @ (c # cs) @ r # u) (Suc (length pre)) (int d + 1)"
        using cr False at len by (subst brackets_scan.simps) simp
      also have "\<dots> = brackets_scan [l] [r] ((pre @ [c]) @ cs @ r # u) (length (pre @ [c])) (int d + 1)"
        by simp
      also have "\<dots> = (length (pre @ [c]) + length cs + 1, 0)"
        by (rule Cons.IH[OF nu Cons.prems(2)])
      finally show ?thesis by simp
    qed
  qed
qed

text \<open>
  Claim C4. For distinct bracket characters \<open>l\<close> and \<open>r\<close> and a text \<open>t\<close> with no unmatched
  \<open>l\<close> or \<open>r\<close>, \<^verbatim>\<open>brackets(l, r)\<close> on \<open>l + t + r\<close>, followed by any text \<open>u\<close>, succeeds with
  value \<open>t\<close> and remainder \<open>u\<close> (empty when nothing follows), at any nesting depth.
\<close>

theorem brackets_round_trip:
  "l \<noteq> r \<Longrightarrow> no_unmatched l r t \<Longrightarrow>
   parseText (snd (Parser_brackets js [l] [r])) (l # t @ r # u)
     = Some (Success \<lparr>parsed = Str t, rest = Str u\<rparr>)"
proof -
  assume lr: "l \<noteq> r" and nu: "no_unmatched l r t"
  from nu have "no_unmatched_from l r 0 t" by (simp add: no_unmatched_def)
  from brackets_scan_balanced[OF this lr, of "[l]" u]
  have "brackets_scan [l] [r] (l # t @ r # u) 1 1 = (length t + 2, 0)"
    by simp
  then show ?thesis
    by (simp add: parseText_def Parser_brackets_def brackets_internal_def slice_def)
qed

theorem brackets_round_trip_witness:
  "CHR ''('' \<noteq> CHR '')'' \<and> no_unmatched CHR ''('' CHR '')'' ''internal (brackets)''
   \<and> parseText (snd (Parser_brackets raising ''('' '')'')) ''(internal (brackets)) go on''
      = Some (Success \<lparr>parsed = Str ''internal (brackets)'', rest = Str '' go on''\<rparr>)"
proof -
  have a: "CHR ''('' \<noteq> CHR '')''" by simp
  have b: "no_unmatched CHR ''('' CHR '')'' ''internal (brackets)''"
    by (simp add: no_unmatched_def)
  from brackets_round_trip[OF a b, of raising "'' go on''"] a b show ?thesis by simp
qed

section \<open>Quoted spans\<close>

lemma overflow_unbounded [simp]: "overflow 0 k = False"
  by (simp add: overflow_def)

lemma underflow_unbounded [simp]: "underflow 0 k = False"
  by (simp add: underflow_def)

lemma join_units: "join (Arr (map (\<lambda>c. Str [c]) t)) = Str t"
  by (induction t) auto

lemma prefix_within:
  "length q \<le> length xs \<Longrightarrow> prefix q (xs @ w) = prefix q xs"
  by (metis prefix_length_prefix prefix_prefix prefixI)

lemma until_quote_loop:
  "q \<noteq> [] \<Longrightarrow> \<forall>i<length u. \<not> prefix q (drop i (u @ q)) \<Longrightarrow>
   many_loop (Parser_item js) 0 0 (Some (notQuote q)) v (Str (u @ q @ w)) es k
     = Some (Success \<lparr>parsed = Arr (es @ map (\<lambda>c. Str [c]) u), rest = Str (q @ w)\<rparr>)"
proof (induction u arbitrary: es k)
  case Nil
  then show ?case
    by (subst many_loop.simps) (simp add: goOn_def many_return_def notQuote_def)
next
  case (Cons a u)
  from Cons.prems(2) have "\<not> prefix q (drop 0 ((a # u) @ q))"
    by (metis length_greater_0_conv list.distinct(1))
  then have "\<not> prefix q (a # u @ q)" by simp
  moreover have "length q \<le> length (a # u @ q)" by simp
  ultimately have here: "\<not> prefix q (a # u @ q @ w)"
    using prefix_within[of q "a # u @ q" w] by simp
  have later: "\<forall>i<length u. \<not> prefix q (drop i (u @ q))"
  proof (intro allI impI)
    fix i assume "i < length u"
    then have "Suc i < length (a # u)" by simp
    with Cons.prems(2) have "\<not> prefix q (drop (Suc i) ((a # u) @ q))" by blast
    then show "\<not> prefix q (drop i (u @ q))" by simp
  qed
  have "many_loop (Parser_item js) 0 0 (Some (notQuote q)) v (Str ((a # u) @ q @ w)) es k
      = many_loop (Parser_item js) 0 0 (Some (notQuote q)) v (Str (u @ q @ w)) (es @ [Str [a]]) (Suc k)"
    using here by (subst many_loop.simps) (simp add: goOn_def Parser_item_def notQuote_def)
  also have "\<dots> = Some (Success \<lparr>parsed = Arr ((es @ [Str [a]]) @ map (\<lambda>c. Str [c]) u), rest = Str (q @ w)\<rparr>)"
    by (rule Cons.IH[OF Cons.prems(1) later])
  finally show ?case by simp
qed

text \<open>
  Claim C5, as the code has it. The span is closed by the first place behind the opening
  delimiter where the remainder starts with the delimiter. So for a non-empty delimiter
  \<open>q\<close> and a text \<open>t\<close> such that \<open>q\<close> does not start anywhere inside \<open>t\<close> when \<open>t\<close> is
  followed by \<open>q\<close>, \<^verbatim>\<open>quoted(q)\<close> on \<open>q + t + q\<close>, followed by any text \<open>w\<close>, succeeds with
  value \<open>t\<close> and remainder \<open>w\<close>.
\<close>

theorem quoted_round_trip:
  "q \<noteq> [] \<Longrightarrow> \<forall>i<length t. \<not> prefix q (drop i (t @ q)) \<Longrightarrow>
   parseText (Parser_quoted js q) (q @ t @ q @ w)
     = Some (Success \<lparr>parsed = Str t, rest = Str w\<rparr>)"
proof -
  assume q: "q \<noteq> []" and free: "\<forall>i<length t. \<not> prefix q (drop i (t @ q))"
  have "many (Parser_item js) 0 0 (Some (notQuote q)) \<lparr>parsed = Str q, rest = Str (t @ q @ w)\<rparr>
      = Some (Success \<lparr>parsed = Arr (map (\<lambda>c. Str [c]) t), rest = Str (q @ w)\<rparr>)"
    using until_quote_loop[OF q free, of js "Str q" w "[]" 0] by (simp add: many_def)
  with q show ?thesis
    by (simp add: parseText_def Parser_quoted_def pass_def seq_def fmap_def Parser_string_def
        join_units del: join.simps)
qed

theorem quoted_round_trip_witness:
  "parseText (Parser_quoted raising ''Q'') (''Q'' @ ''found word'' @ ''Q'' @ '' rest'')
      = Some (Success \<lparr>parsed = Str ''found word'', rest = Str '' rest''\<rparr>)"
proof -
  have a: "''Q'' \<noteq> []" by simp
  have b: "\<forall>i<length ''found word''. \<not> prefix ''Q'' (drop i (''found word'' @ ''Q''))"
    by (simp add: All_less_Suc2 eval_nat_numeral)
  from quoted_round_trip[OF a b, of raising "'' rest''"] show ?thesis .
qed

text \<open>
  The claim as stated only asks that \<open>q\<close> does not occur in \<open>t\<close>. The delimiter \<^verbatim>\<open>aa\<close> does
  not occur in the text \<^verbatim>\<open>a\<close>, but it starts at the first unit of \<^verbatim>\<open>a\<close> followed by
  \<^verbatim>\<open>aa\<close>: the value is the empty string and one unit is left over.
\<close>

theorem quoted_overlap_counterexample:
  "\<not> sublist ''aa'' ''a''
   \<and> parseText (Parser_quoted raising ''aa'') (''aa'' @ ''a'' @ ''aa'')
       = Some (Success \<lparr>parsed = Str [], rest = Str ''a''\<rparr>)"
proof -
  have "\<not> sublist ''aa'' ''a''"
    by (simp add: sublist_Cons_right)
  moreover have "many_loop (Parser_item raising) 0 0 (Some (notQuote ''aa'')) (Str ''aa'') (Str ''aaa'') [] 0
      = Some (Success \<lparr>parsed = Arr [], rest = Str ''aaa''\<rparr>)"
    by (subst many_loop.simps) (simp add: goOn_def many_return_def notQuote_def)
  ultimately show ?thesis
    by (simp add: parseText_def Parser_quoted_def pass_def seq_def fmap_def Parser_string_def
        many_def)
qed

section \<open>Bounded repetition\<close>

text \<open>
  As long as the bound allows it, \<open>n\<close> successful rounds take the loop from its state at
  \<open>t\<close> to its state at the remainder behind them; there the loop ends when no further
  round succeeds or the count has passed \<^verbatim>\<open>max\<close>. Conversely every result of the loop
  arises so.
\<close>

lemma many_loop_rounds:
  "rounds P c v n t = Some (xs, t') \<Longrightarrow> \<not> overflow max_n (k + n - 1) \<Longrightarrow>
   many_loop P min_n max_n c v t es k = many_loop P min_n max_n c v t' (es @ xs) (k + n)"
proof (induction n arbitrary: t xs es k)
  case 0
  then show ?case by simp
next
  case (Suc n)
  from Suc.prems(1) obtain r ys where
    go: "truthy t" "holds c t" and
    p: "P \<lparr>parsed = v, rest = t\<rparr> = Some (Success r)" and
    rest: "rounds P c v n (rest r) = Some (ys, t')" and
    xs: "xs = parsed r # ys"
    by (auto split: if_splits option.splits outcome.splits)
  from Suc.prems(2) have no: "\<not> overflow max_n k"
    by (auto simp: overflow_def split: if_splits)
  have "many_loop P min_n max_n c v t es k
      = many_loop P min_n max_n c v (rest r) (es @ [parsed r]) (Suc k)"
    using go p no by (subst many_loop.simps) (simp add: goOn_iff)
  also have "\<dots> = many_loop P min_n max_n c v t' ((es @ [parsed r]) @ ys) (Suc k + n)"
  proof (cases n)
    case 0
    with rest show ?thesis by simp
  next
    case (Suc m)
    with Suc.prems(2) have "\<not> overflow max_n (Suc k + n - 1)" by simp
    from Suc.IH[OF rest this] show ?thesis .
  qed
  finally show ?case using xs by simp
qed

lemma many_loop_stops:
  "stops P c v t \<or> overflow max_n k \<Longrightarrow>
   many_loop P min_n max_n c v t es k = Some (many_return min_n max_n t es k)"
  by (subst many_loop.simps) (auto simp: goOn_iff stops_def)

lemma rounds_length: "rounds P c v n t = Some (xs, t') \<Longrightarrow> length xs = n"
  by (induction n arbitrary: t xs) (auto split: if_splits option.splits outcome.splits)

lemma many_loop_returns:
  "many_loop P min_n max_n c v t es k = Some out \<Longrightarrow>
   out = Threw \<or>
   (\<exists>n xs t'. rounds P c v n t = Some (xs, t') \<and> (stops P c v t' \<or> overflow max_n (k + n))
      \<and> out = many_return min_n max_n t' (es @ xs) (k + n))"
proof (induction rule: many_loop_induct)
  case (step loop P min_n max_n c v t es k out)
  show ?case
  proof (cases "goOn c max_n t k")
    case False
    with step.hyps have out: "out = many_return min_n max_n t es k" by simp
    from False have "stops P c v t \<or> overflow max_n k"
      by (auto simp: goOn_iff stops_def)
    with out show ?thesis
      by (intro disjI2 exI[of _ 0] exI[of _ "[]"] exI[of _ t]) simp
  next
    case True
    then have go: "truthy t" "holds c t" by (simp_all add: goOn_iff)
    show ?thesis
    proof (cases "P \<lparr>parsed = v, rest = t\<rparr>")
      case None
      with True step.hyps show ?thesis by simp
    next
      case (Some o1)
      show ?thesis
      proof (cases o1)
        case Failure
        with True Some step.hyps have out: "out = many_return min_n max_n t es k" by simp
        from Some Failure have "stops P c v t" by (simp add: stops_def)
        with out show ?thesis
          by (intro disjI2 exI[of _ 0] exI[of _ "[]"] exI[of _ t]) simp
      next
        case Threw
        with True Some step.hyps show ?thesis by simp
      next
        case (Success result)
        with True Some step.hyps
        have "loop P min_n max_n c v (rest result) (es @ [parsed result]) (Suc k) = Some out"
          by simp
        from step.IH[OF this] show ?thesis
        proof
          assume "out = Threw"
          then show ?thesis by simp
        next
          assume "\<exists>n xs t'. rounds P c v n (rest result) = Some (xs, t')
              \<and> (stops P c v t' \<or> overflow max_n (Suc k + n))
              \<and> out = many_return min_n max_n t' ((es @ [parsed result]) @ xs) (Suc k + n)"
          then obtain n xs t' where
            r: "rounds P c v n (rest result) = Some (xs, t')" and
            s: "stops P c v t' \<or> overflow max_n (Suc k + n)" and
            o: "out = many_return min_n max_n t' ((es @ [parsed result]) @ xs) (Suc k + n)"
            by blast
          from go Some Success r
          have "rounds P c v (Suc n) t = Some (parsed result # xs, t')" by simp
          with s o show ?thesis
            by (intro disjI2 exI[of _ "Suc n"] exI[of _ "parsed result # xs"] exI[of _ t']) simp
        qed
      qed
    qed
  qed
qed

text \<open>
  Claim C2, as the code has it. For \<open>0 < min \<le> max\<close>: the loop goes on while the count is
  at most \<^verbatim>\<open>max\<close> (\<^verbatim>\<open>overflow\<close> is \<^verbatim>\<open>iterations > max\<close>), so it attempts round \<open>max + 1\<close>.
  \<^item> When exactly \<open>n \<le> max\<close> rounds succeed and then none, \<^verbatim>\<open>many\<close> succeeds with the \<open>n\<close>
    values in order and the remainder after them if \<open>min \<le> n\<close>, and fails otherwise.
  \<^item> When \<open>max + 1\<close> rounds succeed, \<^verbatim>\<open>many\<close> returns \<open>Failure\<close>.
  \<^item> Whenever \<^verbatim>\<open>many\<close> succeeds, its sequence has between \<open>min\<close> and \<open>max\<close> values, those
    of the rounds.
  \<^item> Whenever \<^verbatim>\<open>many\<close> fails, fewer than \<open>min\<close> rounds succeeded before the loop stopped, or
    more than \<open>max\<close> rounds succeeded.
\<close>

theorem many_bounds:
  "0 < min_n \<and> min_n \<le> max_n \<longrightarrow>
   (\<forall>n xs t'. rounds P c v n t = Some (xs, t') \<and> stops P c v t' \<and> int n \<le> max_n
       \<longrightarrow> many P min_n max_n c \<lparr>parsed = v, rest = t\<rparr>
            = Some (if min_n \<le> int n then Success \<lparr>parsed = Arr xs, rest = t'\<rparr> else Failure))
   \<and> (\<forall>xs t'. rounds P c v (nat max_n + 1) t = Some (xs, t')
       \<longrightarrow> many P min_n max_n c \<lparr>parsed = v, rest = t\<rparr> = Some Failure)
   \<and> (\<forall>r. many P min_n max_n c \<lparr>parsed = v, rest = t\<rparr> = Some (Success r)
       \<longrightarrow> (\<exists>xs. parsed r = Arr xs \<and> min_n \<le> int (length xs) \<and> int (length xs) \<le> max_n
              \<and> rounds P c v (length xs) t = Some (xs, rest r)))
   \<and> (many P min_n max_n c \<lparr>parsed = v, rest = t\<rparr> = Some Failure
       \<longrightarrow> (\<exists>n xs t'. rounds P c v n t = Some (xs, t')
              \<and> (int n < min_n \<and> stops P c v t' \<or> max_n < int n)))"
proof (intro impI conjI allI)
  fix n xs t'
  assume b: "0 < min_n \<and> min_n \<le> max_n"
    and a: "rounds P c v n t = Some (xs, t') \<and> stops P c v t' \<and> int n \<le> max_n"
  then have no: "\<not> overflow max_n (0 + n - 1)" and no': "\<not> overflow max_n n"
    by (auto simp: overflow_def)
  from a have "many_loop P min_n max_n c v t [] 0 = many_loop P min_n max_n c v t' ([] @ xs) (0 + n)"
    by (intro many_loop_rounds[OF _ no]) simp
  also from a have "\<dots> = Some (many_return min_n max_n t' ([] @ xs) (0 + n))"
    by (intro many_loop_stops) simp
  finally show "many P min_n max_n c \<lparr>parsed = v, rest = t\<rparr>
      = Some (if min_n \<le> int n then Success \<lparr>parsed = Arr xs, rest = t'\<rparr> else Failure)"
    using b no' by (auto simp: many_def many_return_def underflow_def)
next
  fix xs t'
  assume b: "0 < min_n \<and> min_n \<le> max_n"
    and a: "rounds P c v (nat max_n + 1) t = Some (xs, t')"
  from b have no: "\<not> overflow max_n (0 + (nat max_n + 1) - 1)" and ov: "overflow max_n (0 + (nat max_n + 1))"
    by (auto simp: overflow_def)
  from a have "many_loop P min_n max_n c v t [] 0
      = many_loop P min_n max_n c v t' ([] @ xs) (0 + (nat max_n + 1))"
    by (rule many_loop_rounds[OF _ no])
  also from ov have "\<dots> = Some (many_return min_n max_n t' ([] @ xs) (0 + (nat max_n + 1)))"
    by (intro many_loop_stops) simp
  finally show "many P min_n max_n c \<lparr>parsed = v, rest = t\<rparr> = Some Failure"
    using ov by (simp add: many_def many_return_def)
next
  fix r
  assume b: "0 < min_n \<and> min_n \<le> max_n"
    and a: "many P min_n max_n c \<lparr>parsed = v, rest = t\<rparr> = Some (Success r)"
  then have "many_loop P min_n max_n c v t [] 0 = Some (Success r)"
    by (simp add: many_def)
  from many_loop_returns[OF this] obtain n xs t' where
    r: "rounds P c v n t = Some (xs, t')" and
    o: "Success r = many_return min_n max_n t' ([] @ xs) (0 + n)"
    by auto
  from rounds_length[OF r] have len: "length xs = n" .
  from o b len have "r = \<lparr>parsed = Arr xs, rest = t'\<rparr> \<and> min_n \<le> int n \<and> int n \<le> max_n"
    by (auto simp: many_return_def overflow_def underflow_def split: if_splits)
  with r len show "\<exists>xs. parsed r = Arr xs \<and> min_n \<le> int (length xs) \<and> int (length xs) \<le> max_n
              \<and> rounds P c v (length xs) t = Some (xs, rest r)"
    by auto
next
  assume b: "0 < min_n \<and> min_n \<le> max_n"
    and a: "many P min_n max_n c \<lparr>parsed = v, rest = t\<rparr> = Some Failure"
  then have "many_loop P min_n max_n c v t [] 0 = Some Failure"
    by (simp add: many_def)
  from many_loop_returns[OF this] obtain n xs t' where
    r: "rounds P c v n t = Some (xs, t')" and
    s: "stops P c v t' \<or> overflow max_n (0 + n)" and
    o: "Failure = many_return min_n max_n t' ([] @ xs) (0 + n)"
    by auto
  from o s b have "int n < min_n \<and> stops P c v t' \<or> max_n < int n"
    by (auto simp: many_return_def overflow_def underflow_def split: if_splits)
  with r show "\<exists>n xs t'. rounds P c v n t = Some (xs, t')
              \<and> (int n < min_n \<and> stops P c v t' \<or> max_n < int n)"
    by blast
qed


theorem many_bounds_witness:
  "parseText (many (Parser_string raising ''sah'') 2 3 None) ''sahsahsah-boo''
     = Some (Success \<lparr>parsed = Arr [Str ''sah'', Str ''sah'', Str ''sah''], rest = Str ''-boo''\<rparr>)"
proof -
  let ?P = "Parser_string raising ''sah''"
  have r: "rounds ?P None Undefined 3 (Str ''sahsahsah-boo'')
      = Some ([Str ''sah'', Str ''sah'', Str ''sah''], Str ''-boo'')"
    by (simp add: eval_nat_numeral Parser_string_def holds_def)
  have s: "stops ?P None Undefined (Str ''-boo'')"
    by (simp add: stops_def Parser_string_def)
  have b: "(0::int) < 2 \<and> (2::int) \<le> 3" by simp
  from many_bounds[of 2 3 ?P None Undefined "Str ''sahsahsah-boo''"] b
  have "\<forall>n xs t'. rounds ?P None Undefined n (Str ''sahsahsah-boo'') = Some (xs, t')
          \<and> stops ?P None Undefined t' \<and> int n \<le> 3
       \<longrightarrow> many ?P 2 3 None \<lparr>parsed = Undefined, rest = Str ''sahsahsah-boo''\<rparr>
            = Some (if 2 \<le> int n then Success \<lparr>parsed = Arr xs, rest = t'\<rparr> else Failure)"
    by blast
  from this[rule_format, of 3 "[Str ''sah'', Str ''sah'', Str ''sah'']" "Str ''-boo''"] r s
  show ?thesis by (simp add: parseText_def)
qed

text \<open>
  The claim as stated promises success with the first \<open>max\<close> values whenever the input
  admits at least \<open>max\<close> rounds, and failure only below \<open>min\<close>. With \<open>min = 1\<close>, \<open>max = 2\<close>
  the input \<^verbatim>\<open>aaa\<close> admits two rounds of \<^verbatim>\<open>char('a')\<close> (and a third): the parser fails.
\<close>

theorem many_overflow_counterexample:
  "(0::int) < 1 \<and> (1::int) \<le> 2
   \<and> rounds (Parser_char raising ''a'') None Undefined 2 (Str ''aaa'')
       = Some ([Str ''a'', Str ''a''], Str ''a'')
   \<and> parseText (many (Parser_char raising ''a'') 1 2 None) ''aaa'' = Some Failure"
proof -
  have "rounds (Parser_char raising ''a'') None Undefined 2 (Str ''aaa'')
       = Some ([Str ''a'', Str ''a''], Str ''a'')"
    by (simp add: eval_nat_numeral Parser_char_def holds_def)
  moreover have "rounds (Parser_char raising ''a'') None Undefined (nat 2 + 1) (Str ''aaa'')
      = Some ([Str ''a'', Str ''a'', Str ''a''], Str [])"
    by (simp add: eval_nat_numeral Parser_char_def holds_def)
  then have "many_loop (Parser_char raising ''a'') 1 2 None Undefined (Str ''aaa'') [] 0
      = many_loop (Parser_char raising ''a'') 1 2 None Undefined (Str []) ([] @ [Str ''a'', Str ''a'', Str ''a''])
          (0 + (nat 2 + 1))"
    by (rule many_loop_rounds) (simp add: overflow_def)
  then have "many_loop (Parser_char raising ''a'') 1 2 None Undefined (Str ''aaa'') [] 0 = Some Failure"
    by (simp add: many_loop_stops stops_def many_return_def overflow_def)
  ultimately show ?thesis
    by (simp add: parseText_def many_def)
qed

section \<open>The interleaving scanner\<close>

text \<open>
  Every run the specification describes is the run of the loop on that text, and every
  result of the loop on a text, other than a \<^verbatim>\<open>TypeError\<close> of the element parser, comes
  from such a run. The element parser is one that keeps text, as every parser built
  from the library does.
\<close>

lemma built_keeps_text: "built js P \<Longrightarrow> keeps_text P"
  using built_consumes_forward[of js P]
  by (fastforce simp: keeps_text_def consumes_forward_def)

lemma makeText_flush: "makeText f (chars, elements) = ([], flush f chars elements)"
  by (simp add: makeText_def flush_def)

lemma spec_to_loop:
  "interleave_spec E f c t chars elements final \<Longrightarrow>
   repeat_loop js E f c (Str t) chars elements = Some (interleave_result final)"
proof (induction rule: interleave_spec.induct)
  case (finish remainder pending out)
  then show ?case
    by (subst repeat_loop.simps) (auto simp: makeText_flush interleave_result_def)
next
  case (element remainder r advanced pending out final)
  then show ?case
    by (subst repeat_loop.simps) (simp add: makeText_flush)
next
  case (raw remainder pending out final)
  then show ?case
    by (subst repeat_loop.simps) simp
qed

lemma loop_to_spec:
  "repeat_loop js E f c t0 chars elements = Some out \<Longrightarrow>
   keeps_text E \<longrightarrow>
     (\<forall>t. t0 = Str t \<longrightarrow>
        out = Threw \<or>
        (\<exists>final. interleave_spec E f c t chars elements final \<and> out = interleave_result final))"
proof (induction rule: repeat_loop_induct)
  case (step loop js E f c t0 chars elements out)
  show ?case
  proof (intro impI allI)
    fix t
    assume kt: "keeps_text E" and t0: "t0 = Str t"
    show "out = Threw \<or>
        (\<exists>final. interleave_spec E f c t chars elements final \<and> out = interleave_result final)"
    proof (cases "t \<noteq> [] \<and> c (Str t)")
      case False
      with step.hyps t0 have "out = interleave_result (t, flush f chars elements)"
        by (auto simp: makeText_flush interleave_result_def split: if_splits)
      with False show ?thesis
        using interleave_spec.finish[of t c E f chars elements] by blast
    next
      case True
      show ?thesis
      proof (cases "E \<lparr>parsed = Obj [], rest = Str t\<rparr>")
        case None
        with True step.hyps t0 show ?thesis by simp
      next
        case (Some o1)
        show ?thesis
        proof (cases o1)
          case Failure
          with True Some step.hyps t0
          have "loop js E f c (Str (drop 1 t)) (chars @ [hd t]) elements = Some out"
            by simp
          from step.IH[OF this] kt
          have "out = Threw \<or>
              (\<exists>final. interleave_spec E f c (drop 1 t) (chars @ [hd t]) elements final
                 \<and> out = interleave_result final)"
            by simp
          then show ?thesis
          proof
            assume "out = Threw"
            then show ?thesis by simp
          next
            assume "\<exists>final. interleave_spec E f c (drop 1 t) (chars @ [hd t]) elements final
                \<and> out = interleave_result final"
            then obtain final where
              sp: "interleave_spec E f c (drop 1 t) (chars @ [hd t]) elements final" and
              o: "out = interleave_result final"
              by blast
            from True Some Failure have "interleave_spec E f c t chars elements final"
              by (intro interleave_spec.raw[OF _ _ _ sp]) simp_all
            with o show ?thesis by blast
          qed
        next
          case Threw
          with True Some step.hyps t0 show ?thesis by simp
        next
          case (Success result)
          from kt Some Success
          have "\<exists>advanced. rest result = Str advanced"
            by (auto simp: keeps_text_def
                dest!: spec[where x = "\<lparr>parsed = Obj [], rest = Str t\<rparr>"])
          then obtain advanced where adv: "rest result = Str advanced" by blast
          from Success True Some step.hyps t0
          have "loop js E f c (rest result) [] (flush f chars elements @ [parsed result]) = Some out"
            by (simp add: makeText_flush)
          from step.IH[OF this] kt adv
          have "out = Threw \<or>
              (\<exists>final. interleave_spec E f c advanced []
                   (flush f chars elements @ [parsed result]) final
                 \<and> out = interleave_result final)"
            by simp
          then show ?thesis
          proof
            assume "out = Threw"
            then show ?thesis by simp
          next
            assume "\<exists>final. interleave_spec E f c advanced []
                  (flush f chars elements @ [parsed result]) final
                \<and> out = interleave_result final"
            then obtain final where
              sp: "interleave_spec E f c advanced [] (flush f chars elements @ [parsed result]) final" and
              o: "out = interleave_result final"
              by blast
            from True Some Success adv have "interleave_spec E f c t chars elements final"
              by (intro interleave_spec.element[OF _ _ _ _ sp]) simp_all
            with o show ?thesis by blast
          qed
        qed
      qed
    qed
  qed
qed

text \<open>
  Claim C3. On a text, and for an element parser that keeps text,
  \<^verbatim>\<open>Parser.repeat(E, f, cond)\<close> returns \<open>Failure\<close> exactly when the scan of the
  specification ends with an empty sequence, and returns a \<open>Success\<close> exactly when the scan
  ends with a non-empty sequence, which is then the value, with the final remainder.
\<close>

theorem interleave_refines_spec:
  "keeps_text E \<Longrightarrow> rest input = Str t \<Longrightarrow>
   (Parser_repeat js E f c input = Some Failure
      \<longleftrightarrow> (\<exists>t'. interleave_spec E f c t [] [] (t', [])))
   \<and> (Parser_repeat js E f c input = Some (Success r)
      \<longleftrightarrow> (\<exists>xs t'. xs \<noteq> [] \<and> parsed r = Arr xs \<and> rest r = Str t'
                \<and> interleave_spec E f c t [] [] (t', xs)))"
proof (intro conjI iffI)
  assume kt: "keeps_text E" and t: "rest input = Str t"
    and "Parser_repeat js E f c input = Some Failure"
  then have "repeat_loop js E f c (Str t) [] [] = Some Failure"
    by (simp add: Parser_repeat_def)
  from loop_to_spec[OF this] kt obtain final where
    "interleave_spec E f c t [] [] final" "Failure = interleave_result final"
    by auto
  then show "\<exists>t'. interleave_spec E f c t [] [] (t', [])"
    by (cases final) (auto simp: interleave_result_def split: if_splits)
next
  assume t: "rest input = Str t"
    and "\<exists>t'. interleave_spec E f c t [] [] (t', [])"
  then obtain t' where "interleave_spec E f c t [] [] (t', [])" by blast
  from spec_to_loop[OF this, of js] t show "Parser_repeat js E f c input = Some Failure"
    by (simp add: Parser_repeat_def interleave_result_def)
next
  assume kt: "keeps_text E" and t: "rest input = Str t"
    and "Parser_repeat js E f c input = Some (Success r)"
  then have "repeat_loop js E f c (Str t) [] [] = Some (Success r)"
    by (simp add: Parser_repeat_def)
  from loop_to_spec[OF this] kt obtain final where
    "interleave_spec E f c t [] [] final" "Success r = interleave_result final"
    by auto
  then show "\<exists>xs t'. xs \<noteq> [] \<and> parsed r = Arr xs \<and> rest r = Str t'
      \<and> interleave_spec E f c t [] [] (t', xs)"
    by (cases final) (auto simp: interleave_result_def split: if_splits)
next
  assume t: "rest input = Str t"
    and "\<exists>xs t'. xs \<noteq> [] \<and> parsed r = Arr xs \<and> rest r = Str t'
      \<and> interleave_spec E f c t [] [] (t', xs)"
  then obtain xs t' where xs: "xs \<noteq> []" "parsed r = Arr xs" "rest r = Str t'"
    and sp: "interleave_spec E f c t [] [] (t', xs)" by blast
  from spec_to_loop[OF sp, of js] xs t show "Parser_repeat js E f c input = Some (Success r)"
    by (simp add: Parser_repeat_def interleave_result_def)
qed

theorem interleave_refines_spec_witness:
  "interleave_spec (Parser_char raising ''2'') (\<lambda>v. Str ''?'') (notQuote ''h'') ''a2bh'' [] []
     (''h'', [Str ''?'', Str ''2'', Str ''?''])"
proof -
  let ?E = "Parser_char raising ''2''"
  let ?f = "\<lambda>v::val. Str ''?''"
  let ?c = "notQuote ''h''"
  have kt: "keeps_text ?E"
    by (intro built_keeps_text[of raising] built.intros)
  have e1: "?E \<lparr>parsed = Obj [], rest = Str ''a2bh''\<rparr> = Some Failure"
    by (simp add: Parser_char_def)
  have e2: "?E \<lparr>parsed = Obj [], rest = Str ''2bh''\<rparr>
      = Some (Success \<lparr>parsed = Str ''2'', rest = Str ''bh''\<rparr>)"
    by (simp add: Parser_char_def)
  have e3: "?E \<lparr>parsed = Obj [], rest = Str ''bh''\<rparr> = Some Failure"
    by (simp add: Parser_char_def)
  have c: "notQuote ''h'' (Str ''a2bh'')" "notQuote ''h'' (Str ''2bh'')"
    "notQuote ''h'' (Str ''bh'')" "\<not> notQuote ''h'' (Str ''h'')"
    by (simp_all add: notQuote_def)
  have "Parser_repeat raising ?E ?f ?c \<lparr>parsed = Undefined, rest = Str ''a2bh''\<rparr>
      = Some (Success \<lparr>parsed = Arr [Str ''?'', Str ''2'', Str ''?''], rest = Str ''h''\<rparr>)"
    by (simp add: Parser_repeat_def repeat_loop.simps[of raising ?E] e1 e2 e3 c makeText_def)
  with interleave_refines_spec[OF kt, of "\<lparr>parsed = Undefined, rest = Str ''a2bh''\<rparr>" "''a2bh''"
      raising ?f ?c "\<lparr>parsed = Arr [Str ''?'', Str ''2'', Str ''?''], rest = Str ''h''\<rparr>"]
  show ?thesis by simp
qed

section \<open>Termination of the repetition loops\<close>






end
